theory Spec2Isabelle
  imports Complex_Main "HOL-Library.Word"
begin

unbundle bit_operations_syntax

section \<open>The I2C sniffer of pi2c-sniffer.py\<close>

text \<open>
  A shallow embedding of the three classes of \<^verbatim>\<open>pi2c-sniffer.py\<close>: \<^verbatim>\<open>I2CParcel\<close>,
  \<^verbatim>\<open>I2CPacket\<close> and the decoding part of \<^verbatim>\<open>I2CSniffer\<close>. Python integers are
  \<^typ>\<open>int\<close>, Python lists are HOL lists, a reference that may be \<^verbatim>\<open>None\<close> is an
  \<^typ>\<open>'a option\<close>, and every exception the code can raise is a value of
  \<open>py_error\<close>, returned on the left of a sum. The readings of \<^verbatim>\<open>time.time()\<close> are
  real numbers that the environment passes in; the float subtraction of the epoch is
  modelled as subtraction of reals.
\<close>

subsection \<open>Errors\<close>

datatype py_error = IndexError | AttributeError | CallbackError

subsection \<open>I2CParcel\<close>

record I2CParcel =
  address :: int
  is_read :: bool
  data :: "int list"

text \<open>\<^verbatim>\<open>I2CParcel()\<close> with the defaults \<^verbatim>\<open>address = 0, is_read = True, data = None\<close>.\<close>

definition I2CParcel_init :: I2CParcel where
  "I2CParcel_init = \<lparr>address = 0, is_read = True, data = []\<rparr>"

definition setAddress :: "int \<Rightarrow> I2CParcel \<Rightarrow> I2CParcel" where
  "setAddress a p = p\<lparr>address := a\<rparr>"

definition setIsRead :: "bool \<Rightarrow> I2CParcel \<Rightarrow> I2CParcel" where
  "setIsRead r p = p\<lparr>is_read := r\<rparr>"

definition addDataByte :: "int \<Rightarrow> I2CParcel \<Rightarrow> I2CParcel" where
  "addDataByte byte p = p\<lparr>data := data p @ [byte]\<rparr>"

subsection \<open>I2CPacket\<close>

text \<open>
  \<^verbatim>\<open>addParcel\<close> appends whatever reference it is given, so the list of parcels can
  hold \<^verbatim>\<open>None\<close>: its elements are \<open>I2CParcel option\<close>.
\<close>

record I2CPacket =
  timestamp :: real
  parcels :: "I2CParcel option list"

text \<open>
  \<^verbatim>\<open>I2CPacket(timestamp = None)\<close>. The class attribute \<^verbatim>\<open>startTimestamp\<close> (the epoch,
  read once when the class is defined) is the first argument; \<open>now\<close> is what
  \<^verbatim>\<open>time.time()\<close> returns when the constructor runs.
\<close>

definition I2CPacket_init :: "real \<Rightarrow> real option \<Rightarrow> real \<Rightarrow> I2CPacket" where
  "I2CPacket_init startTimestamp ts now =
     \<lparr>timestamp = (case ts of Some t \<Rightarrow> t | None \<Rightarrow> now) - startTimestamp, parcels = []\<rparr>"

definition addParcel :: "I2CParcel option \<Rightarrow> I2CPacket \<Rightarrow> I2CPacket" where
  "addParcel p pk = pk\<lparr>parcels := parcels pk @ [p]\<rparr>"

text \<open>\<^verbatim>\<open>self.parcels[0]\<close> raises \<^verbatim>\<open>IndexError\<close> on the empty list.\<close>

definition firstParcel :: "I2CPacket \<Rightarrow> py_error + I2CParcel option" where
  "firstParcel pk = (case parcels pk of [] \<Rightarrow> Inl IndexError | p # _ \<Rightarrow> Inr p)"

definition secondParcel :: "I2CPacket \<Rightarrow> I2CParcel option" where
  "secondParcel pk = (if length (parcels pk) > 1 then parcels pk ! 1 else None)"

text \<open>Reading an attribute of a reference: \<^verbatim>\<open>None.is_read\<close> raises \<^verbatim>\<open>AttributeError\<close>.\<close>

definition attr :: "(I2CParcel \<Rightarrow> 'a) \<Rightarrow> I2CParcel option \<Rightarrow> py_error + 'a" where
  "attr f r = (case r of None \<Rightarrow> Inl AttributeError | Some p \<Rightarrow> Inr (f p))"


definition isReadPacket :: "I2CPacket \<Rightarrow> py_error + bool" where
  "isReadPacket pk =
     (if length (parcels pk) = 2 then
        (case firstParcel pk of
           Inl e \<Rightarrow> Inl e
         | Inr r \<Rightarrow>
             (case attr is_read r of
                Inl e \<Rightarrow> Inl e
              | Inr b \<Rightarrow> if \<not> b then attr is_read (secondParcel pk) else Inr False))
      else Inr False)"

text \<open>\<^verbatim>\<open>data[0]\<close> raises \<^verbatim>\<open>IndexError\<close> on the empty list.\<close>

definition getRegister :: "I2CPacket \<Rightarrow> py_error + int" where
  "getRegister pk =
     (case firstParcel pk of
        Inl e \<Rightarrow> Inl e
      | Inr r \<Rightarrow>
          (case attr data r of
             Inl e \<Rightarrow> Inl e
           | Inr d \<Rightarrow> (case d of [] \<Rightarrow> Inl IndexError | x # _ \<Rightarrow> Inr x)))"

text \<open>The slice \<^verbatim>\<open>data[1:]\<close> never raises: it is \<^term>\<open>drop 1\<close>.\<close>

definition getData :: "I2CPacket \<Rightarrow> py_error + int list" where
  "getData pk =
     (case isReadPacket pk of
        Inl e \<Rightarrow> Inl e
      | Inr b \<Rightarrow>
          if b then attr data (secondParcel pk)
          else (case firstParcel pk of
                  Inl e \<Rightarrow> Inl e
                | Inr r \<Rightarrow> (case attr data r of Inl e \<Rightarrow> Inl e | Inr d \<Rightarrow> Inr (drop 1 d))))"

subsection \<open>I2CSniffer\<close>

datatype edge = FALLING | RISING | STEADY

text \<open>
  The fields of \<^verbatim>\<open>I2CSniffer\<close> that the decoder reads or writes. The field
  \<^verbatim>\<open>self.value\<close> is \<open>value'\<close> here, since \<open>value\<close> is a command of Isabelle.
  The pigpio handle is left out, and the callback \<^verbatim>\<open>onPacketCallback\<close>, which never
  changes after construction, is an argument of \<open>parse\<close>.
\<close>

record I2CSniffer =
  SCLPin :: int
  SDAPin :: int
  packet :: "I2CPacket option"
  parcel :: "I2CParcel option"
  packetHistory :: "I2CPacket list"
  oldSCL :: int
  oldSDA :: int
  value' :: int
  nbits :: int

text \<open>
  A callback receives the completed packet and the sniffer; it may change the sniffer
  and it may raise.
\<close>

type_synonym callback = "I2CPacket \<Rightarrow> I2CSniffer \<Rightarrow> py_error + I2CSniffer"

definition I2CSniffer_init :: "int \<Rightarrow> int \<Rightarrow> I2CSniffer" where
  "I2CSniffer_init scl sda =
     \<lparr>SCLPin = scl, SDAPin = sda, packet = None, parcel = None, packetHistory = [],
      oldSCL = 1, oldSDA = 1, value' = 0, nbits = 0\<rparr>"

definition getPacketHistory :: "I2CSniffer \<Rightarrow> I2CPacket list" where
  "getPacketHistory s = packetHistory s"

text \<open>
  \<^verbatim>\<open>xs[i]\<close> for a Python list: an index from \<open>-len\<close> up to \<open>-1\<close> is taken from the
  end of the list, and below \<open>-len\<close> or from \<open>len\<close> on the access raises
  \<^verbatim>\<open>IndexError\<close>.
\<close>

definition py_index :: "'a list \<Rightarrow> int \<Rightarrow> py_error + 'a" where
  "py_index xs i =
     (if 0 \<le> i \<and> i < int (length xs) then Inr (xs ! nat i)
      else if - int (length xs) \<le> i \<and> i < 0 then Inr (xs ! nat (int (length xs) + i))
      else Inl IndexError)"

definition getLastestPacket :: "I2CSniffer \<Rightarrow> py_error + I2CPacket" where
  "getLastestPacket s = py_index (packetHistory s) (int (length (packetHistory s)) - 1)"

definition getSecondLatestPacket :: "I2CSniffer \<Rightarrow> py_error + I2CPacket" where
  "getSecondLatestPacket s = py_index (packetHistory s) (int (length (packetHistory s)) - 2)"

text \<open>
  The loop of \<^verbatim>\<open>getLatestWithPredicate\<close> over a list that is already reversed. The
  predicate is a Python function: it may raise, and the exception leaves the loop.
  Falling off the end of the loop returns \<^verbatim>\<open>None\<close>.
\<close>

fun scan :: "(I2CPacket \<Rightarrow> py_error + bool) \<Rightarrow> I2CPacket list \<Rightarrow> py_error + I2CPacket option" where
  "scan predicate [] = Inr None"
| "scan predicate (pk # pks) =
     (case predicate pk of
        Inl e \<Rightarrow> Inl e
      | Inr b \<Rightarrow> if b then Inr (Some pk) else scan predicate pks)"

definition getLatestWithPredicate ::
  "(I2CPacket \<Rightarrow> py_error + bool) \<Rightarrow> I2CSniffer \<Rightarrow> py_error + I2CPacket option" where
  "getLatestWithPredicate predicate s = scan predicate (rev (packetHistory s))"

text \<open>Lines 138 to 148 of \<^verbatim>\<open>_parse\<close>: the classification of a level against the old one.\<close>

definition classify :: "int \<Rightarrow> int \<Rightarrow> edge" where
  "classify old new = (if new \<noteq> old then (if new \<noteq> 0 then RISING else FALLING) else STEADY)"

text \<open>
  \<^verbatim>\<open>_parse(SCL, SDA)\<close>. The arguments before \<open>SCL\<close> are the environment: the
  callback, the epoch and the reading of the clock during this call.
\<close>

definition parse ::
  "callback option \<Rightarrow> real \<Rightarrow> real \<Rightarrow> int \<Rightarrow> int \<Rightarrow> I2CSniffer \<Rightarrow> py_error + I2CSniffer" where
  "parse onPacketCallback startTimestamp now SCL SDA s0 =
     (let xSCL = classify (oldSCL s0) SCL;
          sa = (if SCL \<noteq> oldSCL s0 then s0\<lparr>oldSCL := SCL\<rparr> else s0);
          xSDA = classify (oldSDA sa) SDA;
          s = (if SDA \<noteq> oldSDA sa then sa\<lparr>oldSDA := SDA\<rparr> else sa)
      in
      if xSCL = RISING \<and> parcel s \<noteq> None then
        (let n = nbits s + 1;
             v = push_bit 1 (value' s) OR SDA;
             p = the (parcel s);
             s1 = s\<lparr>nbits := n, value' := v\<rparr>
         in
         if n = 7 then Inr (s1\<lparr>parcel := Some (setAddress v p), value' := 0\<rparr>)
         else if n = 8 then Inr (s1\<lparr>parcel := Some (setIsRead (v = 1) p), value' := 0\<rparr>)
         else if (n - 10) mod 9 + 1 = 8 then Inr (s1\<lparr>parcel := Some (addDataByte v p), value' := 0\<rparr>)
         else if (n - 10) mod 9 + 1 = 9 then Inr (s1\<lparr>value' := 0\<rparr>)
         else Inr s1)
      else if xSCL = STEADY \<and> SCL = 1 then
        (if xSDA = FALLING then
           Inr (s\<lparr>packet :=
                    (case packet s of
                       None \<Rightarrow> Some (I2CPacket_init startTimestamp None now)
                     | Some pk \<Rightarrow> Some (addParcel (parcel s) pk)),
                  parcel := Some I2CParcel_init, nbits := 0, value' := 0\<rparr>)
         else if xSDA = RISING \<and> parcel s \<noteq> None then
           (case packet s of
              None \<Rightarrow> Inl AttributeError
            | Some pk0 \<Rightarrow>
                (let pk = addParcel (parcel s) pk0;
                     s1 = s\<lparr>parcel := None, packetHistory := packetHistory s @ [pk], packet := None\<rparr>
                 in case onPacketCallback of None \<Rightarrow> Inr s1 | Some f \<Rightarrow> f pk s1))
         else Inr s)
      else Inr s)"

text \<open>
  \<^verbatim>\<open>_cb(gpio, level, tick)\<close>: the line that changed gets the new level, the other one
  keeps the recorded level.
\<close>

definition cb ::
  "callback option \<Rightarrow> real \<Rightarrow> real \<Rightarrow> int \<Rightarrow> int \<Rightarrow> int \<Rightarrow> I2CSniffer \<Rightarrow> py_error + I2CSniffer" where
  "cb onPacketCallback startTimestamp now gpio level tick s =
     (let SCL = (if gpio = SCLPin s then level else oldSCL s);
          SDA = (if gpio = SDAPin s then level else oldSDA s)
      in parse onPacketCallback startTimestamp now SCL SDA s)"

subsection \<open>Event streams\<close>

text \<open>
  One event is one call of \<^verbatim>\<open>_cb\<close> by pigpio, together with the reading of
  \<^verbatim>\<open>time.time()\<close> while the call runs. An exception ends the run, as it ends the
  thread that delivers the callbacks.
\<close>

datatype event = Edge (ev_gpio: int) (ev_level: int) (ev_tick: int) (ev_now: real)

fun run :: "callback option \<Rightarrow> real \<Rightarrow> event list \<Rightarrow> I2CSniffer \<Rightarrow> py_error + I2CSniffer" where
  "run f t0 [] s = Inr s"
| "run f t0 (e # es) s =
     (case cb f t0 (ev_now e) (ev_gpio e) (ev_level e) (ev_tick e) s of
        Inl err \<Rightarrow> Inl err
      | Inr s' \<Rightarrow> run f t0 es s')"

text \<open>
  A callback that only observes: it returns normally and leaves the sniffer as it is.
\<close>

definition observer :: "callback option \<Rightarrow> bool" where
  "observer f = (case f of None \<Rightarrow> True | Some g \<Rightarrow> \<forall>pk s. g pk s = Inr s)"

text \<open>
  The guards of the three branches of \<^verbatim>\<open>_parse\<close> (lines 151, 168 with 169, and 168 with
  179), on the state before the call.
\<close>

definition bit_rule :: "int \<Rightarrow> int \<Rightarrow> I2CSniffer \<Rightarrow> bool" where
  "bit_rule SCL SDA s = (classify (oldSCL s) SCL = RISING \<and> parcel s \<noteq> None)"

definition start_rule :: "int \<Rightarrow> int \<Rightarrow> I2CSniffer \<Rightarrow> bool" where
  "start_rule SCL SDA s =
     (classify (oldSCL s) SCL = STEADY \<and> SCL = 1 \<and> classify (oldSDA s) SDA = FALLING)"

definition stop_rule :: "int \<Rightarrow> int \<Rightarrow> I2CSniffer \<Rightarrow> bool" where
  "stop_rule SCL SDA s =
     (classify (oldSCL s) SCL = STEADY \<and> SCL = 1 \<and> classify (oldSDA s) SDA = RISING
      \<and> parcel s \<noteq> None)"

subsection \<open>Transactions on the bus\<close>














text \<open>
  The invariant of the decoder: a packet is in progress exactly when a parcel is, the bit
  count is not negative, every packet of the history has a parcel and holds no \<^verbatim>\<open>None\<close>,
  and the packet in progress holds no \<^verbatim>\<open>None\<close>.
\<close>

definition wf :: "I2CSniffer \<Rightarrow> bool" where
  "wf s =
     ((packet s = None \<longleftrightarrow> parcel s = None) \<and> 0 \<le> nbits s
      \<and> (\<forall>pk \<in> set (packetHistory s). parcels pk \<noteq> [] \<and> None \<notin> set (parcels pk))
      \<and> (\<forall>pk. packet s = Some pk \<longrightarrow> None \<notin> set (parcels pk)))"

section \<open>The branches of the parser\<close>

text \<open>
  After the first eight lines of \<^verbatim>\<open>_parse\<close> the recorded levels are the levels passed
  in, whether they changed or not.
\<close>

lemma record_levels:
  "(if SCL \<noteq> oldSCL s then s\<lparr>oldSCL := SCL\<rparr> else s) = s\<lparr>oldSCL := SCL\<rparr>"
  "(if SDA \<noteq> oldSDA s then s\<lparr>oldSDA := SDA\<rparr> else s) = s\<lparr>oldSDA := SDA\<rparr>"
  by simp_all

lemma parse_levels_only:
  "\<not> bit_rule SCL SDA s \<Longrightarrow> \<not> start_rule SCL SDA s \<Longrightarrow> \<not> stop_rule SCL SDA s \<Longrightarrow>
   parse f t0 now SCL SDA s = Inr (s\<lparr>oldSCL := SCL, oldSDA := SDA\<rparr>)"
  unfolding parse_def record_levels bit_rule_def start_rule_def stop_rule_def Let_def
  by (cases "classify (oldSCL s) SCL"; cases "classify (oldSDA s) SDA"; simp)

lemma parse_bit:
  assumes "bit_rule SCL SDA s"
  shows "parse f t0 now SCL SDA s =
     Inr (let n = nbits s + 1; v = push_bit 1 (value' s) OR SDA; p = the (parcel s);
              s1 = s\<lparr>oldSCL := SCL, oldSDA := SDA, nbits := n\<rparr>
          in if n = 7 then s1\<lparr>parcel := Some (setAddress v p), value' := 0\<rparr>
             else if n = 8 then s1\<lparr>parcel := Some (setIsRead (v = 1) p), value' := 0\<rparr>
             else if (n - 10) mod 9 + 1 = 8 then
               s1\<lparr>parcel := Some (addDataByte v p), value' := 0\<rparr>
             else if (n - 10) mod 9 + 1 = 9 then s1\<lparr>value' := 0\<rparr>
             else s1\<lparr>value' := v\<rparr>)"
  using assms unfolding parse_def record_levels bit_rule_def Let_def by simp

lemma parse_start:
  assumes "\<not> bit_rule SCL SDA s" "start_rule SCL SDA s"
  shows "parse f t0 now SCL SDA s =
     Inr (s\<lparr>oldSCL := SCL, oldSDA := SDA,
            packet := (case packet s of
                         None \<Rightarrow> Some (I2CPacket_init t0 None now)
                       | Some pk \<Rightarrow> Some (addParcel (parcel s) pk)),
            parcel := Some I2CParcel_init, nbits := 0, value' := 0\<rparr>)"
  using assms unfolding parse_def record_levels bit_rule_def start_rule_def Let_def
  by (cases "classify (oldSCL s) SCL"; cases "classify (oldSDA s) SDA";
      simp split: option.split)

lemma parse_stop:
  assumes "\<not> bit_rule SCL SDA s" "stop_rule SCL SDA s"
  shows "parse f t0 now SCL SDA s =
     (case packet s of
        None \<Rightarrow> Inl AttributeError
      | Some pk0 \<Rightarrow>
         (case f of
            None \<Rightarrow>
              Inr (s\<lparr>oldSCL := SCL, oldSDA := SDA, parcel := None,
                     packetHistory := packetHistory s @ [addParcel (parcel s) pk0],
                     packet := None\<rparr>)
          | Some g \<Rightarrow>
              g (addParcel (parcel s) pk0)
                (s\<lparr>oldSCL := SCL, oldSDA := SDA, parcel := None,
                   packetHistory := packetHistory s @ [addParcel (parcel s) pk0],
                   packet := None\<rparr>)))"
  using assms unfolding parse_def record_levels bit_rule_def stop_rule_def Let_def
  by (cases "classify (oldSCL s) SCL"; cases "classify (oldSDA s) SDA";
      simp split: option.split)

lemma rule_cases:
  obtains (bit) "bit_rule SCL SDA s"
  | (start) "\<not> bit_rule SCL SDA s" "start_rule SCL SDA s"
  | (stop) "\<not> bit_rule SCL SDA s" "stop_rule SCL SDA s"
  | (none) "\<not> bit_rule SCL SDA s" "\<not> start_rule SCL SDA s" "\<not> stop_rule SCL SDA s"
  by blast

section \<open>Queries on a packet\<close>

lemma getRegister_cases:
  "getRegister pk =
     (case parcels pk of
        [] \<Rightarrow> Inl IndexError
      | None # _ \<Rightarrow> Inl AttributeError
      | Some p # _ \<Rightarrow> (case data p of [] \<Rightarrow> Inl IndexError | x # _ \<Rightarrow> Inr x))"
  by (simp add: getRegister_def firstParcel_def attr_def split: list.split option.split)

text \<open>
  Claim C10. When the first parcel of a packet has no data byte, \<open>getRegister\<close> raises
  \<^verbatim>\<open>IndexError\<close>, and \<open>getData\<close> of such a packet that is not a read packet is the
  empty list. Whenever \<open>getRegister\<close> returns a value, the first parcel has a first data
  byte, and the value is that byte.
\<close>

theorem getRegister_needs_data_byte:
  "(\<forall>p rest. parcels pk = Some p # rest \<and> data p = [] \<longrightarrow>
      getRegister pk = Inl IndexError \<and> (isReadPacket pk = Inr False \<longrightarrow> getData pk = Inr []))
   \<and> (\<forall>v. getRegister pk = Inr v \<longrightarrow> (\<exists>p rest d. parcels pk = Some p # rest \<and> data p = v # d))"
proof (intro conjI allI impI)
  fix p rest
  assume "parcels pk = Some p # rest \<and> data p = []"
  then show "getRegister pk = Inl IndexError"
    by (simp add: getRegister_cases)
next
  fix p rest
  assume a: "parcels pk = Some p # rest \<and> data p = []" and b: "isReadPacket pk = Inr False"
  show "getData pk = Inr []"
    using a by (simp add: getData_def b firstParcel_def attr_def)
next
  fix v
  assume "getRegister pk = Inr v"
  then show "\<exists>p rest d. parcels pk = Some p # rest \<and> data p = v # d"
    by (simp add: getRegister_cases split: list.splits option.splits)
qed

text \<open>An address-only write to address 56, and a write of the register byte 3.\<close>

theorem getRegister_needs_data_byte_witness:
  "getRegister \<lparr>timestamp = 0, parcels = [Some \<lparr>address = 56, is_read = False, data = []\<rparr>]\<rparr>
     = Inl IndexError
   \<and> isReadPacket \<lparr>timestamp = 0, parcels = [Some \<lparr>address = 56, is_read = False, data = []\<rparr>]\<rparr>
     = Inr False
   \<and> getData \<lparr>timestamp = 0, parcels = [Some \<lparr>address = 56, is_read = False, data = []\<rparr>]\<rparr>
     = Inr []
   \<and> getRegister \<lparr>timestamp = 0, parcels = [Some \<lparr>address = 56, is_read = False, data = [3]\<rparr>]\<rparr>
     = Inr 3"
  using getRegister_needs_data_byte
    [of "\<lparr>timestamp = 0, parcels = [Some \<lparr>address = 56, is_read = False, data = []\<rparr>]\<rparr>"]
    getRegister_needs_data_byte
    [of "\<lparr>timestamp = 0, parcels = [Some \<lparr>address = 56, is_read = False, data = [3]\<rparr>]\<rparr>"]
  by (simp add: isReadPacket_def getRegister_cases)

section \<open>Queries on the history\<close>

text \<open>
  \<open>getSecondLatestPacket\<close> indexes the history with its length minus two. On the empty
  history that index is \<open>-2\<close> and the call raises \<^verbatim>\<open>IndexError\<close>; on a history of
  two or more packets it returns the packet appended before the latest one.
\<close>

lemma getSecondLatestPacket_empty_or_two:
  "(packetHistory s = [] \<longrightarrow> getSecondLatestPacket s = Inl IndexError)
   \<and> (\<forall>h q p. packetHistory s = h @ [q, p] \<longrightarrow> getSecondLatestPacket s = Inr q)"
  by (simp add: getSecondLatestPacket_def py_index_def nth_append)

text \<open>
  Claim C6. A history of fewer than two packets has no second latest packet, and the
  call should fail on it as it fails on the empty history. It does not on a history of
  one packet: the index is then \<open>-1\<close>, which Python reads from the end of the list.
  After the first transaction on the bus (a START and a STOP here) the history holds one
  packet, and \<open>getSecondLatestPacket\<close> returns that packet, the same one that
  \<open>getLastestPacket\<close> returns, where \<^verbatim>\<open>IndexError\<close> is due.
\<close>

theorem getSecondLatestPacket_single_returns_latest:
  "run None 0 [Edge 24 0 0 1, Edge 24 1 0 2] (I2CSniffer_init 23 24)
     = Inr \<lparr>SCLPin = 23, SDAPin = 24, packet = None, parcel = None,
            packetHistory =
              [\<lparr>timestamp = 1, parcels = [Some \<lparr>address = 0, is_read = True, data = []\<rparr>]\<rparr>],
            oldSCL = 1, oldSDA = 1, value' = 0, nbits = 0\<rparr>
   \<and> getSecondLatestPacket
       \<lparr>SCLPin = 23, SDAPin = 24, packet = None, parcel = None,
        packetHistory =
          [\<lparr>timestamp = 1, parcels = [Some \<lparr>address = 0, is_read = True, data = []\<rparr>]\<rparr>],
        oldSCL = 1, oldSDA = 1, value' = 0, nbits = 0\<rparr>
     = Inr \<lparr>timestamp = 1, parcels = [Some \<lparr>address = 0, is_read = True, data = []\<rparr>]\<rparr>
   \<and> getLastestPacket
       \<lparr>SCLPin = 23, SDAPin = 24, packet = None, parcel = None,
        packetHistory =
          [\<lparr>timestamp = 1, parcels = [Some \<lparr>address = 0, is_read = True, data = []\<rparr>]\<rparr>],
        oldSCL = 1, oldSDA = 1, value' = 0, nbits = 0\<rparr>
     = Inr \<lparr>timestamp = 1, parcels = [Some \<lparr>address = 0, is_read = True, data = []\<rparr>]\<rparr>"
  by (simp add: getSecondLatestPacket_def getLastestPacket_def py_index_def cb_def parse_def
      classify_def Let_def I2CSniffer_init_def I2CPacket_init_def I2CParcel_init_def
      addParcel_def)

lemma scan_skip:
  "\<forall>x \<in> set xs. predicate x = Inr False \<Longrightarrow> scan predicate (xs @ ys) = scan predicate ys"
  by (induction xs) simp_all

lemma rev_split_at:
  assumes "i < length h"
  shows "rev h = rev (drop (Suc i) h) @ h ! i # rev (take i h)"
proof -
  have "h = take i h @ h ! i # drop (Suc i) h"
    using assms by (simp add: id_take_nth_drop)
  then have "rev h = rev (take i h @ h ! i # drop (Suc i) h)"
    by simp
  then show ?thesis
    by simp
qed

text \<open>
  Claim C7. \<open>getLatestWithPredicate\<close> returns \<^verbatim>\<open>None\<close> when the predicate is false on
  every packet of the history, and it returns the packet at index \<open>i\<close> when the predicate
  is true there and false on every packet appended later: the newest match wins, whatever
  the predicate says about older packets.
\<close>

theorem getLatestWithPredicate_newest_match:
  "((\<forall>pk \<in> set (packetHistory s). predicate pk = Inr False)
      \<longrightarrow> getLatestWithPredicate predicate s = Inr None)
   \<and> (\<forall>i < length (packetHistory s).
        predicate (packetHistory s ! i) = Inr True
        \<and> (\<forall>j. i < j \<and> j < length (packetHistory s)
              \<longrightarrow> predicate (packetHistory s ! j) = Inr False)
        \<longrightarrow> getLatestWithPredicate predicate s = Inr (Some (packetHistory s ! i)))"
proof (intro conjI allI impI)
  assume "\<forall>pk \<in> set (packetHistory s). predicate pk = Inr False"
  then have "scan predicate (rev (packetHistory s) @ []) = scan predicate []"
    by (intro scan_skip) simp
  then show "getLatestWithPredicate predicate s = Inr None"
    by (simp add: getLatestWithPredicate_def)
next
  fix i
  let ?h = "packetHistory s"
  assume i: "i < length ?h"
    and m: "predicate (?h ! i) = Inr True
            \<and> (\<forall>j. i < j \<and> j < length ?h \<longrightarrow> predicate (?h ! j) = Inr False)"
  have "\<forall>x \<in> set (rev (drop (Suc i) ?h)). predicate x = Inr False"
  proof
    fix x
    assume "x \<in> set (rev (drop (Suc i) ?h))"
    then obtain k where "k < length (drop (Suc i) ?h)" "x = drop (Suc i) ?h ! k"
      by (auto simp: in_set_conv_nth)
    then show "predicate x = Inr False"
      using m by simp
  qed
  then have "scan predicate (rev (drop (Suc i) ?h) @ ?h ! i # rev (take i ?h))
             = scan predicate (?h ! i # rev (take i ?h))"
    by (rule scan_skip)
  then show "getLatestWithPredicate predicate s = Inr (Some (?h ! i))"
    using m by (simp add: getLatestWithPredicate_def rev_split_at [OF i, symmetric])
qed

text \<open>
  Three packets with the timestamps 1, 2 and 3. The first two are earlier than 3, and the
  later of them is returned; none is earlier than 0.
\<close>

theorem getLatestWithPredicate_newest_match_witness:
  "getLatestWithPredicate (\<lambda>pk. Inr (timestamp pk < 3))
     (I2CSniffer_init 23 24\<lparr>packetHistory :=
        [\<lparr>timestamp = 1, parcels = []\<rparr>, \<lparr>timestamp = 2, parcels = []\<rparr>,
         \<lparr>timestamp = 3, parcels = []\<rparr>]\<rparr>)
     = Inr (Some \<lparr>timestamp = 2, parcels = []\<rparr>)
   \<and> getLatestWithPredicate (\<lambda>pk. Inr (timestamp pk < 0))
     (I2CSniffer_init 23 24\<lparr>packetHistory :=
        [\<lparr>timestamp = 1, parcels = []\<rparr>, \<lparr>timestamp = 2, parcels = []\<rparr>,
         \<lparr>timestamp = 3, parcels = []\<rparr>]\<rparr>)
     = Inr None"
proof -
  let ?s = "I2CSniffer_init 23 24\<lparr>packetHistory :=
        [\<lparr>timestamp = 1, parcels = []\<rparr>, \<lparr>timestamp = 2, parcels = []\<rparr>,
         \<lparr>timestamp = 3, parcels = []\<rparr>]\<rparr>"
  have a: "\<forall>j. (1::nat) < j \<and> j < 3 \<longrightarrow> j = 2"
    by auto
  from getLatestWithPredicate_newest_match
    [of ?s "\<lambda>pk. Inr (timestamp pk < 3)", THEN conjunct2, rule_format, of 1]
  have 1: "getLatestWithPredicate (\<lambda>pk. Inr (timestamp pk < 3)) ?s
           = Inr (Some \<lparr>timestamp = 2, parcels = []\<rparr>)"
    using a by (auto simp: I2CSniffer_init_def)
  from getLatestWithPredicate_newest_match
    [of ?s "\<lambda>pk. Inr (timestamp pk < 0)", THEN conjunct1]
  have 2: "getLatestWithPredicate (\<lambda>pk. Inr (timestamp pk < 0)) ?s = Inr None"
    by (simp add: I2CSniffer_init_def)
  from 1 2 show ?thesis
    by simp
qed

section \<open>One call of the parser\<close>

text \<open>
  Claim C5, as the code has it. A call of \<open>parse\<close> that takes none of the three
  branches changes nothing but the recorded levels of the two lines, which become the
  levels passed in: the accumulator, the bit count, the packet and the parcel in progress
  and the history stay as they are.
\<close>

theorem parse_no_rule_updates_levels_only:
  "\<not> bit_rule SCL SDA s \<Longrightarrow> \<not> start_rule SCL SDA s \<Longrightarrow> \<not> stop_rule SCL SDA s \<Longrightarrow>
   parse f t0 now SCL SDA s = Inr (s\<lparr>oldSCL := SCL, oldSDA := SDA\<rparr>)"
  unfolding parse_def record_levels bit_rule_def start_rule_def stop_rule_def Let_def
  by (cases "classify (oldSCL s) SCL"; cases "classify (oldSDA s) SDA"; simp)

text \<open>
  The clock falls on the idle bus: no rule applies, and the recorded clock level goes
  from 1 to 0.
\<close>

theorem parse_no_rule_updates_levels_only_witness:
  "\<not> bit_rule 0 1 (I2CSniffer_init 23 24) \<and> \<not> start_rule 0 1 (I2CSniffer_init 23 24)
   \<and> \<not> stop_rule 0 1 (I2CSniffer_init 23 24)
   \<and> parse None 0 0 0 1 (I2CSniffer_init 23 24) = Inr (I2CSniffer_init 23 24\<lparr>oldSCL := 0\<rparr>)"
proof -
  have r: "\<not> bit_rule 0 1 (I2CSniffer_init 23 24)" "\<not> start_rule 0 1 (I2CSniffer_init 23 24)"
    "\<not> stop_rule 0 1 (I2CSniffer_init 23 24)"
    by (simp_all add: bit_rule_def start_rule_def stop_rule_def I2CSniffer_init_def classify_def)
  from parse_no_rule_updates_levels_only [OF r, of None 0 0] r show ?thesis
    by (simp add: I2CSniffer_init_def)
qed

theorem parse_no_rule_changes_state_counterexample:
  "\<not> bit_rule 0 1 (I2CSniffer_init 23 24) \<and> \<not> start_rule 0 1 (I2CSniffer_init 23 24)
   \<and> \<not> stop_rule 0 1 (I2CSniffer_init 23 24)
   \<and> parse None 0 0 0 1 (I2CSniffer_init 23 24) \<noteq> Inr (I2CSniffer_init 23 24)"
  by (simp add: parse_def bit_rule_def start_rule_def stop_rule_def Let_def
      I2CSniffer_init_def classify_def)

section \<open>Event streams\<close>

lemmas eval_defs = cb_def parse_def classify_def Let_def I2CSniffer_init_def I2CPacket_init_def
  I2CParcel_init_def addParcel_def setAddress_def setIsRead_def addDataByte_def

lemma parse_wf:
  assumes "observer f" "wf s"
  shows "\<exists>s'. parse f t0 now SCL SDA s = Inr s' \<and> wf s'"
proof (cases rule: rule_cases [of SCL SDA s])
  case bit
  then have "parcel s \<noteq> None"
    by (simp add: bit_rule_def)
  then show ?thesis
    using assms(2) by (simp add: parse_bit [OF bit] Let_def wf_def)
next
  case start
  show ?thesis
    using assms(2)
    by (auto simp: parse_start [OF start] wf_def I2CPacket_init_def addParcel_def
        split: option.splits)
next
  case stop
  then have p: "parcel s \<noteq> None"
    by (simp add: stop_rule_def)
  with assms(2) obtain pk0 where pk0: "packet s = Some pk0"
    by (auto simp: wf_def)
  show ?thesis
    using assms p pk0
    by (auto simp: parse_stop [OF stop] wf_def observer_def addParcel_def split: option.splits)
next
  case none
  then show ?thesis
    using assms(2) by (simp add: parse_levels_only wf_def)
qed

lemma cb_wf:
  assumes "observer f" "wf s"
  shows "\<exists>s'. cb f t0 now g l t s = Inr s' \<and> wf s'"
  unfolding cb_def Let_def by (rule parse_wf [OF assms])

lemma run_wf:
  assumes "observer f" "wf s"
  shows "\<exists>s'. run f t0 evs s = Inr s' \<and> wf s'"
  using assms(2)
proof (induction evs arbitrary: s)
  case Nil
  then show ?case
    by simp
next
  case (Cons e es)
  from cb_wf [OF assms(1) Cons.prems] obtain s1
    where s1: "cb f t0 (ev_now e) (ev_gpio e) (ev_level e) (ev_tick e) s = Inr s1" "wf s1"
    by blast
  from Cons.IH [OF s1(2)] s1(1) show ?case
    by simp
qed

lemma wf_init: "wf (I2CSniffer_init scl sda)"
  by (simp add: wf_def I2CSniffer_init_def)

lemma observer_None: "observer None"
  by (simp add: observer_def)

text \<open>
  Claim C9. Whatever events arrive, with no callback or with one that only observes, the
  run ends in a state and not in an exception, so the STOP branch never reads the packet
  of \<^verbatim>\<open>None\<close>; and in that state the packet in progress is absent exactly when the
  parcel in progress is.
\<close>

theorem packet_absent_iff_parcel_absent:
  assumes "observer f"
  shows "\<exists>s. run f t0 evs (I2CSniffer_init scl sda) = Inr s
           \<and> (packet s = None \<longleftrightarrow> parcel s = None)"
  using run_wf [OF assms wf_init, of t0 evs scl sda] by (auto simp: wf_def)

text \<open>A START, one clock pulse and a STOP on the pins 23 and 24.\<close>

theorem packet_absent_iff_parcel_absent_witness:
  "\<exists>s. run None 0 [Edge 24 0 0 1, Edge 23 0 0 2, Edge 23 1 0 3, Edge 24 1 0 4]
          (I2CSniffer_init 23 24) = Inr s
       \<and> (packet s = None \<longleftrightarrow> parcel s = None)"
  using packet_absent_iff_parcel_absent [OF observer_None] by blast

section \<open>Sampling a bit\<close>

lemma shift_in_bit: "b = 0 \<or> b = 1 \<Longrightarrow> push_bit 1 v OR b = v * 2 + (b::int)"
  by (auto simp: or_one_eq push_bit_eq_mult)

text \<open>
  Claim C1. Let \<open>s\<close> be a state that an event stream leads to, with a parcel \<open>p\<close> in
  progress, and let the clock rise while the data line is at 0 or 1. With \<open>n\<close> the bit
  count after this bit and \<open>a\<close> the accumulator after this bit (twice the old one plus
  the data bit): at \<open>n = 7\<close> the parcel gets the address \<open>a\<close>; at \<open>n = 8\<close> it gets
  the direction, read exactly when \<open>a = 1\<close>; beyond 8, with \<open>k = (n - 10) mod 9 + 1\<close>,
  at \<open>k = 8\<close> the byte \<open>a\<close> is appended to the data and at \<open>k = 9\<close> nothing is stored;
  in these four cases the accumulator becomes 0. At every other bit count the parcel is
  unchanged and the accumulator is \<open>a\<close>. Nothing else changes but the recorded levels.
\<close>

theorem bit_count_determines_emission:
  assumes "observer f" "run f t0 evs (I2CSniffer_init scl sda) = Inr s"
    and "parcel s = Some p" "classify (oldSCL s) SCL = RISING" "SDA = 0 \<or> SDA = 1"
  shows "parse f t0 now SCL SDA s =
     Inr (let n = nbits s + 1; a = value' s * 2 + SDA; k = (n - 10) mod 9 + 1;
              s1 = s\<lparr>oldSCL := SCL, oldSDA := SDA, nbits := n\<rparr>
          in if n = 7 then s1\<lparr>parcel := Some (p\<lparr>address := a\<rparr>), value' := 0\<rparr>
             else if n = 8 then s1\<lparr>parcel := Some (p\<lparr>is_read := (a = 1)\<rparr>), value' := 0\<rparr>
             else if n > 8 \<and> k = 8 then
               s1\<lparr>parcel := Some (p\<lparr>data := data p @ [a]\<rparr>), value' := 0\<rparr>
             else if n > 8 \<and> k = 9 then s1\<lparr>value' := 0\<rparr>
             else s1\<lparr>value' := a\<rparr>)"
proof -
  from run_wf [OF assms(1) wf_init, of t0 evs scl sda] assms(2) have n: "0 \<le> nbits s"
    by (auto simp: wf_def)
  have b: "bit_rule SCL SDA s"
    using assms(3,4) by (simp add: bit_rule_def)
  note eq = parse_bit [OF b, of f t0 now, unfolded shift_in_bit [OF assms(5)]]
  consider (a) "nbits s + 1 = 7" | (d) "nbits s + 1 = 8" | (hi) "nbits s + 1 > 8"
    | (lo) "nbits s + 1 < 7"
    by linarith
  then show ?thesis
  proof cases
    case a
    then show ?thesis
      using assms(3) by (simp add: eq Let_def setAddress_def)
  next
    case d
    then show ?thesis
      using assms(3) by (simp add: eq Let_def setIsRead_def)
  next
    case hi
    then show ?thesis
      using assms(3) by (simp add: eq Let_def addDataByte_def)
  next
    case lo
    with n have "(nbits s + 1 - 10) mod 9 + 1 \<noteq> 8 \<and> (nbits s + 1 - 10) mod 9 + 1 \<noteq> 9"
      by presburger
    with lo show ?thesis
      by (simp add: eq Let_def)
  qed
qed

text \<open>
  After a START and six clock pulses with the data line low, the clock falls; then it
  rises with the data line high. This is the seventh bit: the address becomes 1.
\<close>

theorem bit_count_determines_emission_witness:
  "run None 0
     [Edge 24 0 0 1, Edge 23 0 0 2, Edge 23 1 0 3, Edge 23 0 0 4, Edge 23 1 0 5, Edge 23 0 0 6,
      Edge 23 1 0 7, Edge 23 0 0 8, Edge 23 1 0 9, Edge 23 0 0 10, Edge 23 1 0 11,
      Edge 23 0 0 12, Edge 23 1 0 13, Edge 23 0 0 14]
     (I2CSniffer_init 23 24)
   = Inr \<lparr>SCLPin = 23, SDAPin = 24, packet = Some \<lparr>timestamp = 1, parcels = []\<rparr>,
          parcel = Some \<lparr>address = 0, is_read = True, data = []\<rparr>, packetHistory = [],
          oldSCL = 0, oldSDA = 0, value' = 0, nbits = 6\<rparr>
   \<and> parse None 0 15 1 1
       \<lparr>SCLPin = 23, SDAPin = 24, packet = Some \<lparr>timestamp = 1, parcels = []\<rparr>,
        parcel = Some \<lparr>address = 0, is_read = True, data = []\<rparr>, packetHistory = [],
        oldSCL = 0, oldSDA = 0, value' = 0, nbits = 6\<rparr>
   = Inr \<lparr>SCLPin = 23, SDAPin = 24, packet = Some \<lparr>timestamp = 1, parcels = []\<rparr>,
          parcel = Some \<lparr>address = 1, is_read = True, data = []\<rparr>, packetHistory = [],
          oldSCL = 1, oldSDA = 1, value' = 0, nbits = 7\<rparr>"
proof -
  have r: "run None 0
     [Edge 24 0 0 1, Edge 23 0 0 2, Edge 23 1 0 3, Edge 23 0 0 4, Edge 23 1 0 5, Edge 23 0 0 6,
      Edge 23 1 0 7, Edge 23 0 0 8, Edge 23 1 0 9, Edge 23 0 0 10, Edge 23 1 0 11,
      Edge 23 0 0 12, Edge 23 1 0 13, Edge 23 0 0 14]
     (I2CSniffer_init 23 24)
   = Inr \<lparr>SCLPin = 23, SDAPin = 24, packet = Some \<lparr>timestamp = 1, parcels = []\<rparr>,
          parcel = Some \<lparr>address = 0, is_read = True, data = []\<rparr>, packetHistory = [],
          oldSCL = 0, oldSDA = 0, value' = 0, nbits = 6\<rparr>"
    by (simp add: eval_defs)
  from bit_count_determines_emission
    [OF observer_None r, of "\<lparr>address = 0, is_read = True, data = []\<rparr>" 1 1 15]
  have "parse None 0 15 1 1
       \<lparr>SCLPin = 23, SDAPin = 24, packet = Some \<lparr>timestamp = 1, parcels = []\<rparr>,
        parcel = Some \<lparr>address = 0, is_read = True, data = []\<rparr>, packetHistory = [],
        oldSCL = 0, oldSDA = 0, value' = 0, nbits = 6\<rparr>
   = Inr \<lparr>SCLPin = 23, SDAPin = 24, packet = Some \<lparr>timestamp = 1, parcels = []\<rparr>,
          parcel = Some \<lparr>address = 1, is_read = True, data = []\<rparr>, packetHistory = [],
          oldSCL = 1, oldSDA = 1, value' = 0, nbits = 7\<rparr>"
    by (simp add: classify_def)
  with r show ?thesis
    by blast
qed

section \<open>What a call does to the history and to the packet in progress\<close>

lemma parse_history:
  assumes "observer f" "parse f t0 now SCL SDA s = Inr s'"
  shows "packetHistory s' = packetHistory s
     \<or> (\<exists>pk p. packet s = Some pk \<and> parcel s = Some p \<and> stop_rule SCL SDA s
          \<and> packetHistory s' = packetHistory s @ [pk\<lparr>parcels := parcels pk @ [Some p]\<rparr>])"
proof (cases rule: rule_cases [of SCL SDA s])
  case bit
  with assms(2) show ?thesis
    by (auto simp: parse_bit Let_def)
next
  case start
  with assms(2) show ?thesis
    by (auto simp: parse_start)
next
  case stop
  then obtain p where p: "parcel s = Some p"
    by (auto simp: stop_rule_def)
  show ?thesis
    using assms p stop(2)
    by (auto simp: parse_stop [OF stop] observer_def addParcel_def split: option.splits)
next
  case none
  with assms(2) show ?thesis
    by (auto simp: parse_levels_only)
qed

lemma parse_packet_grows:
  assumes "parse f t0 now SCL SDA s = Inr s'" "packet s = Some pk"
    and "length (packetHistory s') = length (packetHistory s)" "observer f"
  shows "\<exists>pk'. packet s' = Some pk' \<and> timestamp pk' = timestamp pk
      \<and> (parcels pk' = parcels pk \<or> parcels pk' = parcels pk @ [parcel s])
      \<and> (parcel s \<noteq> None \<longrightarrow> parcel s' \<noteq> None)"
proof (cases rule: rule_cases [of SCL SDA s])
  case bit
  with assms(1,2) show ?thesis
    by (auto simp: parse_bit Let_def)
next
  case start
  with assms(1,2) show ?thesis
    by (auto simp: parse_start addParcel_def)
next
  case stop
  show ?thesis
    using assms
    by (auto simp: parse_stop [OF stop] observer_def addParcel_def split: option.splits)
next
  case none
  with assms(1,2) show ?thesis
    by (auto simp: parse_levels_only)
qed

text \<open>
  Claim C8. In a state that an event stream leads to, every packet of the history has
  at least one parcel, and none of its parcels is \<^verbatim>\<open>None\<close>. The order of the parcels is
  the order on the bus, because parcels are only ever added at the end: a further call
  either leaves the history as it is, or appends to it the packet in progress with the
  parcel in progress added as its last parcel; and when it leaves the history as it is,
  the packet in progress keeps its parcels or gets the parcel in progress added as its
  last one.
\<close>

theorem appended_packet_has_parcels_in_order:
  assumes "observer f" "run f t0 evs (I2CSniffer_init scl sda) = Inr s"
  shows "(\<forall>pk \<in> set (packetHistory s). parcels pk \<noteq> [] \<and> None \<notin> set (parcels pk))
    \<and> (\<forall>now SCL SDA. \<exists>s'. parse f t0 now SCL SDA s = Inr s'
          \<and> (packetHistory s' = packetHistory s
              \<or> (\<exists>pk p. packet s = Some pk \<and> parcel s = Some p
                    \<and> packetHistory s'
                        = packetHistory s @ [pk\<lparr>parcels := parcels pk @ [Some p]\<rparr>]))
          \<and> (\<forall>pk. packet s = Some pk \<and> packetHistory s' = packetHistory s \<longrightarrow>
                (\<exists>pk'. packet s' = Some pk'
                   \<and> (parcels pk' = parcels pk \<or> parcels pk' = parcels pk @ [parcel s]))))"
proof (intro conjI allI)
  from run_wf [OF assms(1) wf_init, of t0 evs scl sda] assms(2) have wf: "wf s"
    by auto
  then show "\<forall>pk \<in> set (packetHistory s). parcels pk \<noteq> [] \<and> None \<notin> set (parcels pk)"
    by (simp add: wf_def)
  fix now SCL SDA
  from parse_wf [OF assms(1) wf, of t0 now SCL SDA] obtain s'
    where s': "parse f t0 now SCL SDA s = Inr s'"
    by blast
  from parse_history [OF assms(1) s']
  have h: "packetHistory s' = packetHistory s
              \<or> (\<exists>pk p. packet s = Some pk \<and> parcel s = Some p
                    \<and> packetHistory s'
                        = packetHistory s @ [pk\<lparr>parcels := parcels pk @ [Some p]\<rparr>])"
    by blast
  have g: "\<forall>pk. packet s = Some pk \<and> packetHistory s' = packetHistory s \<longrightarrow>
                (\<exists>pk'. packet s' = Some pk'
                   \<and> (parcels pk' = parcels pk \<or> parcels pk' = parcels pk @ [parcel s]))"
    using parse_packet_grows [OF s' _ _ assms(1)] by fastforce
  from s' h g show "\<exists>s'. parse f t0 now SCL SDA s = Inr s'
          \<and> (packetHistory s' = packetHistory s
              \<or> (\<exists>pk p. packet s = Some pk \<and> parcel s = Some p
                    \<and> packetHistory s'
                        = packetHistory s @ [pk\<lparr>parcels := parcels pk @ [Some p]\<rparr>]))
          \<and> (\<forall>pk. packet s = Some pk \<and> packetHistory s' = packetHistory s \<longrightarrow>
                (\<exists>pk'. packet s' = Some pk'
                   \<and> (parcels pk' = parcels pk \<or> parcels pk' = parcels pk @ [parcel s])))"
    by blast
qed

text \<open>After a START, a call with the clock high and the data line rising is a STOP.\<close>

theorem appended_packet_has_parcels_in_order_witness:
  "run None 0 [Edge 24 0 0 1] (I2CSniffer_init 23 24)
     = Inr \<lparr>SCLPin = 23, SDAPin = 24, packet = Some \<lparr>timestamp = 1, parcels = []\<rparr>,
            parcel = Some \<lparr>address = 0, is_read = True, data = []\<rparr>, packetHistory = [],
            oldSCL = 1, oldSDA = 0, value' = 0, nbits = 0\<rparr>
   \<and> (\<exists>s'. parse None 0 2 1 1
              \<lparr>SCLPin = 23, SDAPin = 24, packet = Some \<lparr>timestamp = 1, parcels = []\<rparr>,
               parcel = Some \<lparr>address = 0, is_read = True, data = []\<rparr>, packetHistory = [],
               oldSCL = 1, oldSDA = 0, value' = 0, nbits = 0\<rparr> = Inr s'
          \<and> packetHistory s'
              = [\<lparr>timestamp = 1, parcels = [Some \<lparr>address = 0, is_read = True, data = []\<rparr>]\<rparr>])"
proof -
  have r: "run None 0 [Edge 24 0 0 1] (I2CSniffer_init 23 24)
     = Inr \<lparr>SCLPin = 23, SDAPin = 24, packet = Some \<lparr>timestamp = 1, parcels = []\<rparr>,
            parcel = Some \<lparr>address = 0, is_read = True, data = []\<rparr>, packetHistory = [],
            oldSCL = 1, oldSDA = 0, value' = 0, nbits = 0\<rparr>"
    by (simp add: eval_defs)
  from appended_packet_has_parcels_in_order
    [OF observer_None r, THEN conjunct2, rule_format, of 2 1 1]
  obtain s' where s': "parse None 0 2 1 1
              \<lparr>SCLPin = 23, SDAPin = 24, packet = Some \<lparr>timestamp = 1, parcels = []\<rparr>,
               parcel = Some \<lparr>address = 0, is_read = True, data = []\<rparr>, packetHistory = [],
               oldSCL = 1, oldSDA = 0, value' = 0, nbits = 0\<rparr> = Inr s'"
    by blast
  then have "packetHistory s'
      = [\<lparr>timestamp = 1, parcels = [Some \<lparr>address = 0, is_read = True, data = []\<rparr>]\<rparr>]"
    by (auto simp: eval_defs)
  with r s' show ?thesis
    by blast
qed

section \<open>The timestamp of a packet\<close>

lemma run_single:
  "run f t0 [e] s = cb f t0 (ev_now e) (ev_gpio e) (ev_level e) (ev_tick e) s"
  by (simp split: sum.split)

lemma cb_history_mono:
  assumes "observer f" "cb f t0 now g l t s = Inr s'"
  shows "length (packetHistory s) \<le> length (packetHistory s')"
  using parse_history [OF assms(1) assms(2) [unfolded cb_def Let_def]] by auto

lemma run_history_mono:
  assumes "observer f" "run f t0 evs s = Inr s'"
  shows "length (packetHistory s) \<le> length (packetHistory s')"
  using assms(2)
proof (induction evs arbitrary: s)
  case Nil
  then show ?case
    by simp
next
  case (Cons e es)
  then obtain s1
    where s1: "cb f t0 (ev_now e) (ev_gpio e) (ev_level e) (ev_tick e) s = Inr s1"
      and r: "run f t0 es s1 = Inr s'"
    by (auto split: sum.splits)
  from cb_history_mono [OF assms(1) s1] Cons.IH [OF r] show ?case
    by simp
qed

lemma run_keeps_open_packet:
  assumes "observer f" "run f t0 evs s = Inr s'"
    and "packet s = Some pk" "parcel s \<noteq> None"
    and "length (packetHistory s') = length (packetHistory s)"
  shows "\<exists>pk'. packet s' = Some pk' \<and> timestamp pk' = timestamp pk \<and> parcel s' \<noteq> None"
  using assms(2-)
proof (induction evs arbitrary: s pk)
  case Nil
  then show ?case
    by simp
next
  case (Cons e es)
  then obtain s1
    where s1: "cb f t0 (ev_now e) (ev_gpio e) (ev_level e) (ev_tick e) s = Inr s1"
      and r: "run f t0 es s1 = Inr s'"
    by (auto split: sum.splits)
  from cb_history_mono [OF assms(1) s1] run_history_mono [OF assms(1) r] Cons.prems(4)
  have l: "length (packetHistory s1) = length (packetHistory s)"
    and l': "length (packetHistory s') = length (packetHistory s1)"
    by simp_all
  from parse_packet_grows [OF s1 [unfolded cb_def Let_def] Cons.prems(2) l assms(1)]
    Cons.prems(3)
  obtain pk1
    where pk1: "packet s1 = Some pk1" "timestamp pk1 = timestamp pk" "parcel s1 \<noteq> None"
    by blast
  from Cons.IH [OF r pk1(1) pk1(3) l'] pk1(2) show ?case
    by simp
qed

lemma parse_opens_packet:
  assumes "parse f t0 now SCL SDA s = Inr s'" "packet s = None" "packet s' \<noteq> None"
    and "observer f"
  shows "packet s' = Some (I2CPacket_init t0 None now) \<and> parcel s' \<noteq> None"
proof (cases rule: rule_cases [of SCL SDA s])
  case bit
  with assms(1-3) show ?thesis
    by (auto simp: parse_bit Let_def split: if_splits)
next
  case start
  with assms(1-3) show ?thesis
    by (auto simp: parse_start)
next
  case stop
  with assms show ?thesis
    by (auto simp: parse_stop observer_def split: option.splits)
next
  case none
  with assms(1-3) show ?thesis
    by (auto simp: parse_levels_only)
qed

text \<open>
  Claim C4, as the code has it. The packet is constructed by the START that opens the
  transaction, and its constructor reads the clock. So when an event \<open>e_start\<close> opens a
  packet, further events follow without completing a packet, and an event \<open>e_stop\<close>
  then extends the history, the packet appended carries the time of \<open>e_start\<close> minus the
  epoch, whatever the time of \<open>e_stop\<close> is.
\<close>

theorem packet_timestamp_is_time_of_opening_start:
  assumes "observer f"
    and "packet s0 = None" "run f t0 [e_start] s0 = Inr s1" "packet s1 \<noteq> None"
    and "run f t0 evs s1 = Inr s2" "length (packetHistory s2) = length (packetHistory s1)"
    and "run f t0 [e_stop] s2 = Inr s3" "packetHistory s3 \<noteq> packetHistory s2"
  shows "\<exists>pk. packetHistory s3 = packetHistory s2 @ [pk]
           \<and> timestamp pk = ev_now e_start - t0"
proof -
  note p1 = assms(3) [unfolded run_single cb_def Let_def]
  from parse_opens_packet [OF p1 assms(2,4,1)]
  have o1: "packet s1 = Some (I2CPacket_init t0 None (ev_now e_start))" "parcel s1 \<noteq> None"
    by simp_all
  from run_keeps_open_packet [OF assms(1,5) o1 assms(6)]
  obtain pk2 where pk2: "packet s2 = Some pk2" "timestamp pk2 = ev_now e_start - t0"
    by (auto simp: I2CPacket_init_def)
  note p3 = assms(7) [unfolded run_single cb_def Let_def]
  from parse_history [OF assms(1) p3] assms(8) pk2 show ?thesis
    by auto
qed

text \<open>
  The epoch is 3. A START at time 10, one clock pulse at times 11 and 12, and a STOP at
  time 20: the timestamp of the packet is 7.
\<close>

theorem packet_timestamp_is_time_of_opening_start_witness:
  "\<exists>pk. packetHistory
          \<lparr>SCLPin = 23, SDAPin = 24, packet = None, parcel = None,
           packetHistory =
             [\<lparr>timestamp = 7, parcels = [Some \<lparr>address = 0, is_read = True, data = []\<rparr>]\<rparr>],
           oldSCL = 1, oldSDA = 1, value' = 0, nbits = 1\<rparr>
        = packetHistory
            \<lparr>SCLPin = 23, SDAPin = 24, packet = Some \<lparr>timestamp = 7, parcels = []\<rparr>,
             parcel = Some \<lparr>address = 0, is_read = True, data = []\<rparr>, packetHistory = [],
             oldSCL = 1, oldSDA = 0, value' = 0, nbits = 1\<rparr> @ [pk]
      \<and> timestamp pk = ev_now (Edge 24 0 0 10) - 3"
proof -
  let ?s1 = "\<lparr>SCLPin = 23, SDAPin = 24, packet = Some \<lparr>timestamp = 7, parcels = []\<rparr>,
             parcel = Some \<lparr>address = 0, is_read = True, data = []\<rparr>, packetHistory = [],
             oldSCL = 1, oldSDA = 0, value' = 0, nbits = 0\<rparr>"
  let ?s2 = "\<lparr>SCLPin = 23, SDAPin = 24, packet = Some \<lparr>timestamp = 7, parcels = []\<rparr>,
             parcel = Some \<lparr>address = 0, is_read = True, data = []\<rparr>, packetHistory = [],
             oldSCL = 1, oldSDA = 0, value' = 0, nbits = 1\<rparr>"
  let ?s3 = "\<lparr>SCLPin = 23, SDAPin = 24, packet = None, parcel = None,
           packetHistory =
             [\<lparr>timestamp = 7, parcels = [Some \<lparr>address = 0, is_read = True, data = []\<rparr>]\<rparr>],
           oldSCL = 1, oldSDA = 1, value' = 0, nbits = 1\<rparr>"
  have a: "packet (I2CSniffer_init 23 24) = None"
    by (simp add: I2CSniffer_init_def)
  have b: "run None 3 [Edge 24 0 0 10] (I2CSniffer_init 23 24) = Inr ?s1"
    by (simp add: eval_defs)
  have c: "packet ?s1 \<noteq> None"
    by simp
  have d: "run None 3 [Edge 23 0 0 11, Edge 23 1 0 12] ?s1 = Inr ?s2"
    by (simp add: eval_defs)
  have e: "length (packetHistory ?s2) = length (packetHistory ?s1)"
    by simp
  have g: "run None 3 [Edge 24 1 0 20] ?s2 = Inr ?s3"
    by (simp add: eval_defs)
  have h: "packetHistory ?s3 \<noteq> packetHistory ?s2"
    by simp
  from packet_timestamp_is_time_of_opening_start [OF observer_None a b c d e g h]
  show ?thesis .
qed

text \<open>
  The same run in one piece: the STOP is at time 20, and the timestamp is not 20 minus the
  epoch.
\<close>

theorem packet_timestamp_not_stop_time_counterexample:
  "run None 3 [Edge 24 0 0 10, Edge 23 0 0 11, Edge 23 1 0 12, Edge 24 1 0 20]
     (I2CSniffer_init 23 24)
   = Inr \<lparr>SCLPin = 23, SDAPin = 24, packet = None, parcel = None,
          packetHistory =
            [\<lparr>timestamp = 7, parcels = [Some \<lparr>address = 0, is_read = True, data = []\<rparr>]\<rparr>],
          oldSCL = 1, oldSDA = 1, value' = 0, nbits = 1\<rparr>
   \<and> (7::real) \<noteq> ev_now (Edge 24 1 0 20) - 3"
  by (simp add: eval_defs)

section \<open>Decoding a transaction\<close>

lemma run_append:
  "run f t0 (xs @ ys) s = (case run f t0 xs s of Inl e \<Rightarrow> Inl e | Inr s' \<Rightarrow> run f t0 ys s')"
  by (induction xs arbitrary: s) (simp_all split: sum.split)


























end
